theory Spec2Isabelle
  imports Main "HOL-Library.Sublist"
begin

section \<open>Semantify 2.0: the ontology builder, the query engine and the merge of app.py\<close>

text \<open>
  The program is one Streamlit script. Its tabs are modelled as functions from the
  widget values and the session state to the new session state and what is rendered.
  The rdflib calls whose code is a library's (serialising and parsing Turtle, the order
  in which a graph or a Python set is iterated) are parameters of the model.
\<close>

subsection \<open>Characters and the string methods of Python\<close>

text \<open>
  A Python \<open>str\<close> is a sequence of code points. The code points of the model are those
  below 256 together with the three that the case mappings of Python reach from there:
  U+0178 (the title case of U+00FF), U+039C (the title case of U+00B5) and U+03BC (the
  lower case of U+039C). \<open>lit\<close> reads a string literal as such a sequence.
\<close>

datatype cp = Latin1 char | U0178 | U039C | U03BC

type_synonym pystr = "cp list"

abbreviation lit :: "string \<Rightarrow> pystr" where
  "lit s \<equiv> map Latin1 s"

fun code_point :: "cp \<Rightarrow> nat" where
  "code_point (Latin1 c) = of_char c"
| "code_point U0178 = 376"
| "code_point U039C = 924"
| "code_point U03BC = 956"

text \<open>
  \<open>is_space\<close> is \<open>str.isspace\<close>, which is what \<open>str.split()\<close> and \<open>str.strip()\<close>
  take for white space; \<open>is_AZ\<close> and \<open>is_az\<close> are the classes \<open>[A-Z]\<close> and
  \<open>[a-z]\<close>, and \<open>is_word\<close> is the class \<open>\w\<close> of a \<open>str\<close> pattern.
\<close>

definition is_space :: "cp \<Rightarrow> bool" where
  "is_space c = (let n = code_point c in
     (9 \<le> n \<and> n \<le> 13) \<or> (28 \<le> n \<and> n \<le> 32) \<or> n = 133 \<or> n = 160)"

definition is_AZ :: "cp \<Rightarrow> bool" where
  "is_AZ c = (let n = code_point c in 65 \<le> n \<and> n \<le> 90)"

definition is_az :: "cp \<Rightarrow> bool" where
  "is_az c = (let n = code_point c in 97 \<le> n \<and> n \<le> 122)"

definition is_word :: "cp \<Rightarrow> bool" where
  "is_word c = (let n = code_point c in
     (48 \<le> n \<and> n \<le> 57) \<or> (65 \<le> n \<and> n \<le> 90) \<or> n = 95 \<or> (97 \<le> n \<and> n \<le> 122) \<or>
     n = 170 \<or> n = 178 \<or> n = 179 \<or> n = 181 \<or> n = 185 \<or> n = 186 \<or>
     (188 \<le> n \<and> n \<le> 190) \<or> (192 \<le> n \<and> n \<le> 214) \<or> (216 \<le> n \<and> n \<le> 246) \<or>
     (248 \<le> n \<and> n \<le> 255) \<or> n = 376 \<or> n = 924 \<or> n = 956)"

text \<open>The lower case of a character, as \<open>str.lower\<close> gives it.\<close>

definition lower_char :: "cp \<Rightarrow> cp" where
  "lower_char c =
     (case c of
        Latin1 d \<Rightarrow>
          (let n = (of_char d :: nat) in
           if (65 \<le> n \<and> n \<le> 90) \<or> (192 \<le> n \<and> n \<le> 214) \<or> (216 \<le> n \<and> n \<le> 222)
           then Latin1 (char_of (n + 32)) else c)
      | U0178 \<Rightarrow> Latin1 (char_of (255 :: nat))
      | U039C \<Rightarrow> U03BC
      | U03BC \<Rightarrow> U03BC)"

text \<open>
  The title case of a character, which \<open>str.capitalize\<close> puts in the place of the
  first one. It is one character, but for U+00DF, whose title case is the two
  characters "Ss".
\<close>

definition title_char :: "cp \<Rightarrow> pystr" where
  "title_char c =
     (case c of
        Latin1 d \<Rightarrow>
          (let n = (of_char d :: nat) in
           if n = 181 then [U039C]
           else if n = 223 then [Latin1 CHR ''S'', Latin1 CHR ''s'']
           else if n = 255 then [U0178]
           else if (97 \<le> n \<and> n \<le> 122) \<or> (224 \<le> n \<and> n \<le> 246) \<or> (248 \<le> n \<and> n \<le> 254)
           then [Latin1 (char_of (n - 32))] else [c])
      | U0178 \<Rightarrow> [U0178]
      | U039C \<Rightarrow> [U039C]
      | U03BC \<Rightarrow> [U039C])"

text \<open>\<open>s.lower()\<close>.\<close>

definition py_lower :: "pystr \<Rightarrow> pystr" where
  "py_lower s = map lower_char s"

text \<open>\<open>s.capitalize()\<close>: the first character in title case, every other one in lower case.\<close>

definition capitalize :: "pystr \<Rightarrow> pystr" where
  "capitalize s = (case s of [] \<Rightarrow> [] | c # cs \<Rightarrow> title_char c @ map lower_char cs)"

text \<open>
  \<open>sorted(xs)\<close> on strings: they are compared character by character, by code point,
  and a proper prefix comes first.
\<close>

fun str_le :: "pystr \<Rightarrow> pystr \<Rightarrow> bool" where
  "str_le [] ys = True"
| "str_le (x # xs) [] = False"
| "str_le (x # xs) (y # ys) =
     (code_point x < code_point y \<or> (code_point x = code_point y \<and> str_le xs ys))"

fun insort_str :: "pystr \<Rightarrow> pystr list \<Rightarrow> pystr list" where
  "insort_str x [] = [x]"
| "insort_str x (y # ys) = (if str_le x y then x # y # ys else y # insort_str x ys)"

definition py_sorted :: "pystr list \<Rightarrow> pystr list" where
  "py_sorted xs = foldr insort_str xs []"

text \<open>\<open>s.strip()\<close>.\<close>

definition py_strip :: "pystr \<Rightarrow> pystr" where
  "py_strip s = rev (dropWhile is_space (rev (dropWhile is_space s)))"

text \<open>
  Cutting a string at every character of a class; the pieces between two cuts, before
  the first and after the last are all kept, empty or not, as \<open>re.split\<close> does.
\<close>

fun split_on :: "(cp \<Rightarrow> bool) \<Rightarrow> pystr \<Rightarrow> pystr list" where
  "split_on d [] = [[]]"
| "split_on d (c # cs) =
     (if d c then [] # split_on d cs
      else (case split_on d cs of [] \<Rightarrow> [[c]] | p # ps \<Rightarrow> (c # p) # ps))"

text \<open>\<open>re.split(r'[.?!]', text)\<close>.\<close>

definition re_split :: "pystr \<Rightarrow> pystr list" where
  "re_split text = split_on (\<lambda>c. c = (Latin1 CHR ''.'') \<or> c = (Latin1 CHR ''?'') \<or> c = (Latin1 CHR ''!'')) text"

text \<open>\<open>s.split()\<close>: runs of white space separate, and no piece is empty.\<close>

definition py_split :: "pystr \<Rightarrow> pystr list" where
  "py_split s = filter (\<lambda>w. w \<noteq> []) (split_on is_space s)"

text \<open>\<open>sep.join(xs)\<close>.\<close>

fun py_join :: "pystr \<Rightarrow> pystr list \<Rightarrow> pystr" where
  "py_join sep [] = []"
| "py_join sep [x] = x"
| "py_join sep (x # y # ys) = x @ sep @ py_join sep (y # ys)"

text \<open>\<open>s.replace(" ", "_")\<close>.\<close>

definition replace_space :: "pystr \<Rightarrow> pystr" where
  "replace_space s = map (\<lambda>c. if c = (Latin1 CHR '' '') then (Latin1 CHR ''_'') else c) s"

text \<open>\<open>x in y\<close> on two strings: \<open>x\<close> starts at some position of \<open>y\<close>.\<close>

fun py_in :: "pystr \<Rightarrow> pystr \<Rightarrow> bool" where
  "py_in x [] = (x = [])"
| "py_in x (c # cs) = (prefix x (c # cs) \<or> py_in x cs)"

subsection \<open>The pattern \<open>\b[A-Z]?[a-z]{3,}\b\<close> and \<open>re.findall\<close>\<close>

definition char_at :: "pystr \<Rightarrow> nat \<Rightarrow> cp option" where
  "char_at s i = (if i < length s then Some (s ! i) else None)"

text \<open>\<open>\b\<close>: exactly one of the characters on the two sides is a word character.\<close>

definition word_boundary :: "cp option \<Rightarrow> cp option \<Rightarrow> bool" where
  "word_boundary prev nxt =
     ((case prev of None \<Rightarrow> False | Some c \<Rightarrow> is_word c) \<noteq>
      (case nxt of None \<Rightarrow> False | Some c \<Rightarrow> is_word c))"

text \<open>
  \<open>[a-z]{3,}\b\<close> at the start of \<open>s\<close>: the repetition is greedy, so it first takes the
  whole run of lower-case letters and then gives letters back one at a time, down to
  three, until \<open>\b\<close> holds behind what it kept.
\<close>

definition match_tail :: "pystr \<Rightarrow> pystr option" where
  "match_tail s =
     (let k = length (takeWhile is_az s) in
      map_option (\<lambda>j. take j s)
        (find (\<lambda>j. word_boundary (char_at s (j - 1)) (char_at s j)) (rev [3..<Suc k])))"

text \<open>
  The whole pattern at the start of \<open>s\<close>, \<open>prev\<close> being the character before it:
  \<open>[A-Z]?\<close> first tries to take a capital, and the match without it is tried when
  that fails.
\<close>

definition match_here :: "cp option \<Rightarrow> pystr \<Rightarrow> pystr option" where
  "match_here prev s =
     (if \<not> word_boundary prev (char_at s 0) then None
      else (case (case s of [] \<Rightarrow> None
                  | c # cs \<Rightarrow> if is_AZ c then map_option (\<lambda>m. c # m) (match_tail cs) else None) of
              Some m \<Rightarrow> Some m
            | None \<Rightarrow> match_tail s))"

text \<open>
  \<open>re.findall\<close>: the scan tries the pattern at each position from the left, keeps a
  match and goes on behind it, and moves one character on where there is none.
\<close>

function findall_from :: "cp option \<Rightarrow> pystr \<Rightarrow> pystr list" where
  "findall_from prev [] = []"
| "findall_from prev (c # cs) =
     (case match_here prev (c # cs) of
        Some m \<Rightarrow> m # findall_from (Some (last m)) (drop (length m) (c # cs))
      | None \<Rightarrow> findall_from (Some c) cs)"
  by pat_completeness auto
termination
proof (relation "measure (\<lambda>(prev, s). length s)")
  show "wf (measure (\<lambda>(prev, s). length s))" by simp
next
  fix prev :: "cp option" and c :: cp and cs m :: pystr
  assume a: "match_here prev (c # cs) = Some m"
  have tail: "3 \<le> length m'" if "match_tail s' = Some m'" for s' m'
  proof -
    let ?k = "length (takeWhile is_az s')"
    from that obtain j
      where j: "find (\<lambda>j. word_boundary (char_at s' (j - 1)) (char_at s' j)) (rev [3..<Suc ?k]) = Some j"
        and m': "m' = take j s'"
      by (auto simp: match_tail_def Let_def)
    from j have "j \<in> set (rev [3..<Suc ?k])" by (metis find_Some_iff nth_mem)
    then have "3 \<le> j" "j \<le> ?k" by auto
    moreover have "?k \<le> length s'" by (rule length_takeWhile_le)
    ultimately show ?thesis using m' by simp
  qed
  from a have "0 < length m"
    by (auto simp: match_here_def split: if_splits option.splits list.splits dest!: tail)
  then show "((Some (last m), drop (length m) (c # cs)), prev, c # cs)
      \<in> measure (\<lambda>(prev, s). length s)" by simp
next
  fix prev :: "cp option" and c :: cp and cs :: pystr
  show "((Some c, cs), prev, c # cs) \<in> measure (\<lambda>(prev, s). length s)" by simp
qed

text \<open>\<open>re.findall(r'\b[A-Z]?[a-z]{3,}\b', s)\<close>.\<close>

definition re_findall :: "pystr \<Rightarrow> pystr list" where
  "re_findall s = findall_from None s"

subsection \<open>Tab 1: the extraction loop\<close>

type_synonym relation = "pystr \<times> pystr \<times> pystr"

text \<open>\<open>parts[1:-1]\<close>.\<close>

definition middle :: "'a list \<Rightarrow> 'a list" where
  "middle parts = butlast (tl parts)"

text \<open>The body of \<open>for s in sentences\<close>, on the set of concepts and the list of relations.\<close>

definition extract_step :: "pystr \<Rightarrow> pystr set \<times> relation list \<Rightarrow> pystr set \<times> relation list" where
  "extract_step s0 acc =
     (case acc of (cons, rels) \<Rightarrow>
        let s = py_strip s0 in
        if s = [] then (cons, rels)
        else
          let words = re_findall s;
              cons' = fold (\<lambda>w C. insert (py_lower w) C) words cons;
              parts = py_split s
          in if 3 \<le> length parts
             then (cons', rels @ [(capitalize (hd parts), py_join (lit '' '') (middle parts),
                                   capitalize (last parts))])
             else (cons', rels))"

definition extraction :: "pystr \<Rightarrow> pystr set \<times> relation list" where
  "extraction user_text = fold extract_step (re_split user_text) ({}, [])"

subsection \<open>Tab 1: the RDF graph and the OWL listing\<close>

text \<open>
  The terms of rdflib. A graph is the set of its statements; the prefixes bound to it
  only change how it is written out, and are left to the serialiser.
\<close>

datatype node = URIRef pystr | BNode pystr | Literal pystr

type_synonym triple = "node \<times> node \<times> node"

type_synonym graph = "triple set"

text \<open>\<open>ex[name]\<close> for \<open>ex = Namespace("http://example.org/")\<close>.\<close>

definition ex :: "pystr \<Rightarrow> node" where
  "ex name = URIRef ((lit ''http://example.org/'') @ name)"

definition RDF_type :: node where
  "RDF_type = URIRef (lit ''http://www.w3.org/1999/02/22-rdf-syntax-ns#type'')"

definition RDFS_Class :: node where
  "RDFS_Class = URIRef (lit ''http://www.w3.org/2000/01/rdf-schema#Class'')"

text \<open>The body of the loop that fills \<open>rdf_graph\<close>: three calls of \<open>rdf_graph.add\<close>.\<close>

definition add_relation :: "relation \<Rightarrow> graph \<Rightarrow> graph" where
  "add_relation r g =
     (case r of (subj, pred, obj) \<Rightarrow>
        let subj_uri = ex subj;
            obj_uri = ex obj;
            g1 = insert (subj_uri, RDF_type, RDFS_Class) g;
            g2 = insert (obj_uri, RDF_type, RDFS_Class) g1
        in insert (subj_uri, ex (replace_space pred), obj_uri) g2)"

definition rdf_graph :: "relation list \<Rightarrow> graph" where
  "rdf_graph rels = fold add_relation rels {}"

definition newline :: cp where
  "newline = (Latin1 (CHR 0x0A))"

text \<open>
  The two loops that fill \<open>owl_output\<close>. The first runs over the set \<open>concepts\<close>;
  \<open>cs\<close> is that set in the order the iteration yields it.
\<close>

definition owl_output :: "pystr list \<Rightarrow> relation list \<Rightarrow> pystr list" where
  "owl_output cs rels =
     fold (\<lambda>r out. case r of (subj, pred, obj) \<Rightarrow>
             out @ [(lit ''ObjectProperty: '') @ replace_space pred @ [newline] @
                    (lit ''  Domain: '') @ subj @ [newline] @ (lit ''  Range: '') @ obj])
       rels
       (fold (\<lambda>c out. out @ [(lit ''Class: '') @ capitalize c]) cs [])"

subsection \<open>The session state and the collaborators\<close>

text \<open>
  \<open>st.session_state\<close> holds four keys, each absent until the first generation.
\<close>

record session_state =
  relations :: "relation list option"
  concepts :: "pystr set option"
  rdf :: "pystr option"
  owl :: "pystr option"

text \<open>
  What a tab renders, in the order of the calls. The texts are the script's, without
  their leading emoji; \<open>StWrite r\<close> is the bullet line of one query result and
  \<open>StDownload name mime data\<close> a download button.
\<close>

datatype notice =
    StSubheader pystr
  | StSuccess pystr
  | StWarning pystr
  | StError pystr
  | StCode pystr
  | StWrite pystr
  | StDownload pystr pystr pystr

text \<open>
  An exception of rdflib. It ends the run of the script, so a tab that raises returns the
  exception in place of what it rendered, and the session state it had reached.
\<close>

datatype py_exception = ParserError | SerializerError

text \<open>
  The library code the script calls: the order in which a Python set of strings and a
  graph are iterated, \<open>Graph.serialize(format='turtle')\<close> and
  \<open>Graph.parse(format='turtle')\<close>, either of which may raise. rdflib gives the blank
  nodes of a text new identifiers at every parse, so what a text is parsed to depends
  on the parse: \<open>parse_turtle rt k text\<close> is the result of the parse that \<open>k\<close>
  parses of the process came before.
\<close>

record runtime =
  set_iter :: "pystr set \<Rightarrow> pystr list"
  graph_iter :: "graph \<Rightarrow> triple list"
  serialize_turtle :: "graph \<Rightarrow> py_exception + pystr"
  parse_turtle :: "nat \<Rightarrow> pystr \<Rightarrow> py_exception + graph"

subsection \<open>Tab 1: the handler of the button\<close>

definition ontology_builder ::
  "runtime \<Rightarrow> bool \<Rightarrow> pystr \<Rightarrow> session_state \<Rightarrow> session_state \<times> (py_exception + notice list)" where
  "ontology_builder rt generate_btn user_text st =
     (if generate_btn \<and> py_strip user_text \<noteq> [] then
        (case extraction user_text of (cons, rels) \<Rightarrow>
           (case serialize_turtle rt (rdf_graph rels) of
              Inl e \<Rightarrow> (st, Inl e)
            | Inr rdf_data \<Rightarrow>
                let owl_text = py_join [newline] (owl_output (set_iter rt cons) rels) in
                (st\<lparr>relations := Some rels, concepts := Some cons,
                    rdf := Some rdf_data, owl := Some owl_text\<rparr>,
                 Inr [StSubheader (lit ''Extracted Concepts''),
                      StSuccess (py_join (lit '', '') (py_sorted (set_iter rt cons))),
                      StSubheader (lit ''RDF Triples''), StCode rdf_data,
                      StSubheader (lit ''OWL Representation''), StCode owl_text])))
      else if generate_btn then
        (st, Inr [StWarning (lit ''Please enter text before generating ontology.'')])
      else (st, Inr []))"

subsection \<open>Tab 3: the query\<close>

text \<open>The loop that fills \<open>found\<close>.\<close>

definition run_query :: "relation list \<Rightarrow> pystr \<Rightarrow> pystr list" where
  "run_query rels query =
     fold (\<lambda>r found. case r of (subj, pred, obj) \<Rightarrow>
             if py_in (py_lower subj) (py_lower query) \<or> py_in (py_lower obj) (py_lower query)
             then found @ [subj @ (lit '' --['') @ pred @ (lit '']--> '') @ obj]
             else found)
       rels []"

definition semantic_queries :: "bool \<Rightarrow> pystr \<Rightarrow> session_state \<Rightarrow> session_state \<times> notice list" where
  "semantic_queries run_btn query st =
     (case relations st of
        None \<Rightarrow> (st, [StWarning (lit ''Generate ontology first in Tab 1.'')])
      | Some rels \<Rightarrow>
          if run_btn then
            (let found = run_query rels query in
             if found \<noteq> [] then (st, StSuccess (lit ''Query Results:'') # map StWrite found)
             else (st, [StError (lit ''No matching semantic relations found.'')]))
          else (st, []))"

subsection \<open>Tab 4: export and merge\<close>

text \<open>
  The merge of the uploaded file into the stored graph, in a process that has parsed
  \<open>n\<close> times before: the upload is parsed first, then the stored text, and every
  statement of the first is added to the second.
\<close>

definition merge :: "runtime \<Rightarrow> nat \<Rightarrow> pystr \<Rightarrow> pystr \<Rightarrow> py_exception + graph" where
  "merge rt n base uploaded =
     (case parse_turtle rt n uploaded of
        Inl e \<Rightarrow> Inl e
      | Inr new_graph \<Rightarrow>
          (case parse_turtle rt (Suc n) base of
             Inl e \<Rightarrow> Inl e
           | Inr merged \<Rightarrow> Inr (fold insert (graph_iter rt new_graph) merged)))"

definition export_merge ::
  "runtime \<Rightarrow> nat \<Rightarrow> pystr option \<Rightarrow> session_state \<Rightarrow>
     session_state \<times> (py_exception + notice list)" where
  "export_merge rt n uploaded st =
     (case (rdf st, owl st) of
        (Some rdf_text, Some owl_text) \<Rightarrow>
          (let downloads = [StDownload (lit ''ontology.ttl'') (lit ''text/turtle'') rdf_text,
                            StDownload (lit ''ontology.owl'') (lit ''application/rdf+xml'') owl_text,
                            StSubheader (lit ''Ontology Merge'')]
           in case uploaded of
                None \<Rightarrow> (st, Inr downloads)
              | Some up \<Rightarrow>
                  (case merge rt n rdf_text up of
                     Inl e \<Rightarrow> (st, Inl e)
                   | Inr merged \<Rightarrow>
                       (case serialize_turtle rt merged of
                          Inl e \<Rightarrow> (st, Inl e)
                        | Inr text \<Rightarrow>
                            (st, Inr (downloads @
                               [StSuccess (lit ''Ontologies merged successfully!''), StCode text])))))
      | _ \<Rightarrow> (st, Inr [StWarning (lit ''Generate ontology first in Tab 1.'')]))"

subsection \<open>Notions used to state the properties\<close>

text \<open>The sentences the loop works on: the pieces of the text, stripped, the empty ones left out.\<close>

definition sentences :: "pystr \<Rightarrow> pystr list" where
  "sentences user_text = filter (\<lambda>s. s \<noteq> []) (map py_strip (re_split user_text))"

text \<open>The relation read off one sentence: first token, tokens in between, last token.\<close>

definition relation_of :: "pystr \<Rightarrow> relation" where
  "relation_of s =
     (capitalize (hd (py_split s)), py_join (lit '' '') (middle (py_split s)),
      capitalize (last (py_split s)))"

text \<open>The words of a string: its maximal runs of word characters.\<close>

definition word_runs :: "pystr \<Rightarrow> pystr list" where
  "word_runs s = filter (\<lambda>w. w \<noteq> []) (split_on (\<lambda>c. \<not> is_word c) s)"

text \<open>
  A word of the shape the pattern asks for: at most one capital letter in front, then
  three or more lower-case letters and nothing else.
\<close>

definition concept_shape :: "pystr \<Rightarrow> bool" where
  "concept_shape w =
     (case w of [] \<Rightarrow> False
      | c # cs \<Rightarrow> (is_AZ c \<and> 3 \<le> length cs \<and> list_all is_az cs) \<or>
                 (3 \<le> length w \<and> list_all is_az w))"

text \<open>
  Upper and lower case on ASCII, read off the two alphabets: a letter goes to the letter
  at the same place of the other alphabet, and every other character stays.
\<close>

definition ascii_upper :: "char \<Rightarrow> char" where
  "ascii_upper c =
     (case map_of (zip ''abcdefghijklmnopqrstuvwxyz'' ''ABCDEFGHIJKLMNOPQRSTUVWXYZ'') c of
        Some u \<Rightarrow> u | None \<Rightarrow> c)"

definition ascii_lower :: "char \<Rightarrow> char" where
  "ascii_lower c =
     (case map_of (zip ''ABCDEFGHIJKLMNOPQRSTUVWXYZ'' ''abcdefghijklmnopqrstuvwxyz'') c of
        Some l \<Rightarrow> l | None \<Rightarrow> c)"

section \<open>Properties\<close>

subsection \<open>The pattern finds the words of the concept shape\<close>

lemma is_az_word: "is_az c \<Longrightarrow> is_word c"
  by (auto simp: is_az_def is_word_def Let_def)

lemma is_AZ_word: "is_AZ c \<Longrightarrow> is_word c"
  by (auto simp: is_AZ_def is_word_def Let_def)

lemma is_AZ_not_az: "is_AZ c \<Longrightarrow> \<not> is_az c"
  by (auto simp: is_AZ_def is_az_def Let_def)

lemma split_on_not_Nil: "split_on d s \<noteq> []"
  by (induction s) (auto split: list.splits)

lemma split_on_runs:
  "split_on d s = takeWhile (\<lambda>c. \<not> d c) s #
     (case dropWhile (\<lambda>c. \<not> d c) s of [] \<Rightarrow> [] | x # rest \<Rightarrow> split_on d rest)"
  by (induction s) (auto split: list.splits simp: split_on_not_Nil)

lemma word_runs_skip: "\<not> is_word c \<Longrightarrow> word_runs (c # cs) = word_runs cs"
  by (simp add: word_runs_def)

lemma word_runs_Nil: "word_runs [] = []"
  by (simp add: word_runs_def)

lemma word_runs_unfold:
  "word_runs s = filter (\<lambda>w. w \<noteq> []) [takeWhile is_word s] @
     (case dropWhile is_word s of [] \<Rightarrow> [] | x # rest \<Rightarrow> word_runs rest)"
proof -
  have sp: "split_on (\<lambda>c. \<not> is_word c) s = takeWhile is_word s #
     (case dropWhile is_word s of [] \<Rightarrow> [] | x # rest \<Rightarrow> split_on (\<lambda>c. \<not> is_word c) rest)"
    using split_on_runs [of "\<lambda>c. \<not> is_word c" s] by simp
  show ?thesis
  proof (cases "dropWhile is_word s")
    case Nil
    have "split_on (\<lambda>c. \<not> is_word c) s = [takeWhile is_word s]"
      using sp [unfolded Nil] by simp
    then have "word_runs s = filter (\<lambda>w. w \<noteq> []) [takeWhile is_word s]"
      by (simp only: word_runs_def)
    then show ?thesis unfolding Nil by simp
  next
    case (Cons x rest)
    have "split_on (\<lambda>c. \<not> is_word c) s =
        takeWhile is_word s # split_on (\<lambda>c. \<not> is_word c) rest"
      using sp [unfolded Cons] by simp
    then have "word_runs s = filter (\<lambda>w. w \<noteq> []) [takeWhile is_word s] @ word_runs rest"
      by (simp only: word_runs_def filter.simps append.simps split: if_split) simp
    then show ?thesis unfolding Cons by simp
  qed
qed

lemma char_at_takeWhile:
  "char_at s (length (takeWhile P s)) = (case dropWhile P s of [] \<Rightarrow> None | d # _ \<Rightarrow> Some d)"
  by (induction s) (auto simp: char_at_def)

lemma word_runs_drop: "word_runs (dropWhile is_word s) =
   (case dropWhile is_word s of [] \<Rightarrow> [] | x # rest \<Rightarrow> word_runs rest)"
proof (cases "dropWhile is_word s")
  case Nil
  show ?thesis unfolding Nil by (simp add: word_runs_Nil)
next
  case (Cons x rest)
  then have "\<not> is_word x" by (metis hd_dropWhile list.sel(1) list.distinct(1))
  then show ?thesis unfolding Cons by (simp add: word_runs_skip)
qed

lemma word_runs_run:
  "is_word c \<Longrightarrow> word_runs (c # cs) = takeWhile is_word (c # cs) # word_runs (dropWhile is_word cs)"
  by (subst word_runs_unfold) (simp add: word_runs_drop [symmetric])

lemma az_run:
  "list_all is_az (takeWhile is_word s) \<longleftrightarrow>
   (case dropWhile is_az s of [] \<Rightarrow> True | d # _ \<Rightarrow> \<not> is_word d)"
  by (induction s) (auto simp: is_az_word)

lemma az_run_eq:
  "list_all is_az (takeWhile is_word s) \<Longrightarrow> takeWhile is_az s = takeWhile is_word s"
  by (induction s) (auto simp: is_az_word)

lemma char_at_0: "char_at s 0 = (case s of [] \<Rightarrow> None | c # _ \<Rightarrow> Some c)"
  by (cases s) (auto simp: char_at_def)

lemma match_tail_char:
  "match_tail s =
     (if 3 \<le> length (takeWhile is_az s) \<and> list_all is_az (takeWhile is_word s)
      then Some (takeWhile is_az s) else None)"
proof (cases "3 \<le> length (takeWhile is_az s)")
  case False
  then have "rev [3..<Suc (length (takeWhile is_az s))] = []" by simp
  then show ?thesis using False by (simp add: match_tail_def)
next
  case True
  let ?k = "length (takeWhile is_az s)"
  let ?P = "\<lambda>j. word_boundary (char_at s (j - 1)) (char_at s j)"
  have kle: "?k \<le> length s" by (rule length_takeWhile_le)
  have inner: "\<And>j. 0 < j \<Longrightarrow> j \<le> ?k \<Longrightarrow> is_word (s ! (j - 1))"
  proof -
    fix j assume "0 < j" "j \<le> ?k"
    then have "j - 1 < ?k" by simp
    then have "is_az (takeWhile is_az s ! (j - 1))" by (metis nth_mem set_takeWhileD)
    then have "is_az (s ! (j - 1))" using \<open>j - 1 < ?k\<close> by (simp add: takeWhile_nth)
    then show "is_word (s ! (j - 1))" by (rule is_az_word)
  qed
  have low: "\<And>j. 3 \<le> j \<Longrightarrow> j < ?k \<Longrightarrow> \<not> ?P j"
  proof -
    fix j assume j: "3 \<le> j" "j < ?k"
    then have a: "is_word (s ! (j - 1))" using inner [of j] by simp
    have b: "is_word (s ! j)" using inner [of "Suc j"] j by simp
    show "\<not> ?P j" using a b j kle by (simp add: word_boundary_def char_at_def)
  qed
  have top: "?P ?k \<longleftrightarrow> list_all is_az (takeWhile is_word s)"
  proof -
    have "0 < ?k" using True by linarith
    then have a: "is_word (s ! (?k - 1))" by (rule inner) simp
    have ca: "char_at s ?k = (case dropWhile is_az s of [] \<Rightarrow> None | d # _ \<Rightarrow> Some d)"
      by (rule char_at_takeWhile)
    have cb: "char_at s (?k - 1) = Some (s ! (?k - 1))"
    proof -
      have "?k - 1 < length s" using \<open>0 < ?k\<close> kle by linarith
      then show ?thesis by (simp add: char_at_def)
    qed
    show ?thesis unfolding word_boundary_def ca cb az_run
      using a by (cases "dropWhile is_az s") (simp_all del: dropWhile_eq_Nil_conv)
  qed
  have rv: "rev [3..<Suc ?k] = ?k # rev [3..<?k]" using True by simp
  show ?thesis
  proof (cases "?P ?k")
    case True
    then show ?thesis using rv \<open>3 \<le> ?k\<close> top
      by (simp add: match_tail_def Let_def takeWhile_eq_take [symmetric])
  next
    case False
    have "find ?P (rev [3..<Suc ?k]) = None"
      using False low by (auto simp: find_None_iff rv)
    then show ?thesis using False top by (simp add: match_tail_def Let_def)
  qed
qed


lemma match_here_no_boundary:
  "(case prev of None \<Rightarrow> False | Some p \<Rightarrow> is_word p) = is_word c \<Longrightarrow>
   match_here prev (c # cs) = None"
  by (simp add: match_here_def word_boundary_def char_at_0)

lemma match_here_not_word:
  "\<not> is_word c \<Longrightarrow> match_here prev (c # cs) = None"
proof -
  assume c: "\<not> is_word c"
  then have "\<not> is_AZ c" "\<not> is_az c" using is_AZ_word is_az_word by blast+
  then show ?thesis by (simp add: match_here_def match_tail_def)
qed

lemma match_here_run:
  assumes "\<not> (case prev of None \<Rightarrow> False | Some p \<Rightarrow> is_word p)" and "is_word c"
  shows "match_here prev (c # cs) =
     (if concept_shape (takeWhile is_word (c # cs)) then Some (takeWhile is_word (c # cs)) else None)"
proof -
  have wb: "word_boundary prev (char_at (c # cs) 0)"
    using assms by (simp add: word_boundary_def char_at_0)
  show ?thesis
  proof (cases "is_AZ c")
    case True
    then have "\<not> is_az c" by (rule is_AZ_not_az)
    then have mt: "match_tail (c # cs) = None" by (simp add: match_tail_def)
    have sh: "concept_shape (takeWhile is_word (c # cs)) \<longleftrightarrow>
        3 \<le> length (takeWhile is_word cs) \<and> list_all is_az (takeWhile is_word cs)"
      using assms(2) True \<open>\<not> is_az c\<close> by (simp add: concept_shape_def)
    show ?thesis
    proof (cases "list_all is_az (takeWhile is_word cs)")
      case la: True
      then have "takeWhile is_az cs = takeWhile is_word cs" by (rule az_run_eq)
      then show ?thesis using wb True mt sh la assms(2)
        by (simp add: match_here_def match_tail_char)
    next
      case False
      then show ?thesis using wb True mt sh
        by (simp add: match_here_def match_tail_char)
    qed
  next
    case False
    have sh: "concept_shape (takeWhile is_word (c # cs)) \<longleftrightarrow>
        3 \<le> length (takeWhile is_word (c # cs)) \<and> list_all is_az (takeWhile is_word (c # cs))"
      using assms(2) False by (simp add: concept_shape_def)
    show ?thesis
    proof (cases "list_all is_az (takeWhile is_word (c # cs))")
      case la: True
      then have "takeWhile is_az (c # cs) = takeWhile is_word (c # cs)" by (rule az_run_eq)
      then show ?thesis using wb False sh la
        by (simp add: match_here_def match_tail_char)
    next
      case nla: False
      then show ?thesis using wb False sh
        by (simp add: match_here_def match_tail_char)
    qed
  qed
qed

lemma findall_from_runs:
  "findall_from prev s =
     (if (case prev of None \<Rightarrow> False | Some p \<Rightarrow> is_word p)
      then filter concept_shape (word_runs (dropWhile is_word s))
      else filter concept_shape (word_runs s))"
proof (induction prev s rule: findall_from.induct)
  case (1 prev)
  show ?case by (simp add: word_runs_Nil)
next
  case (2 prev c cs)
  let ?pw = "case prev of None \<Rightarrow> False | Some p \<Rightarrow> is_word p"
  show ?case
  proof (cases "is_word c")
    case cw: False
    then have m: "match_here prev (c # cs) = None" by (rule match_here_not_word)
    have "findall_from prev (c # cs) = findall_from (Some c) cs" using m by simp
    also have "\<dots> = filter concept_shape (word_runs cs)" using "2.IH"(1) [OF m] cw by simp
    finally show ?thesis using cw by (simp add: word_runs_skip)
  next
    case cw: True
    show ?thesis
    proof (cases ?pw)
      case True
      then have m: "match_here prev (c # cs) = None"
        using cw by (intro match_here_no_boundary) simp
      have "findall_from prev (c # cs) = findall_from (Some c) cs" using m by simp
      also have "\<dots> = filter concept_shape (word_runs (dropWhile is_word cs))"
        using "2.IH"(1) [OF m] cw by simp
      finally show ?thesis using cw True by simp
    next
      case False
      let ?run = "takeWhile is_word (c # cs)"
      have mh: "match_here prev (c # cs) = (if concept_shape ?run then Some ?run else None)"
        using False cw by (rule match_here_run)
      have wr: "word_runs (c # cs) = ?run # word_runs (dropWhile is_word cs)"
        using cw by (rule word_runs_run)
      show ?thesis
      proof (cases "concept_shape ?run")
        case sh: True
        then have m: "match_here prev (c # cs) = Some ?run" using mh by simp
        have lw: "is_word (last ?run)" using cw
          by (metis last_in_set list.distinct(1) set_takeWhileD takeWhile.simps(2))
        have dr: "drop (length ?run) (c # cs) = dropWhile is_word (c # cs)"
          by (simp add: dropWhile_eq_drop)
        have "findall_from prev (c # cs) =
            ?run # findall_from (Some (last ?run)) (drop (length ?run) (c # cs))"
          using m by simp
        also have "findall_from (Some (last ?run)) (drop (length ?run) (c # cs)) =
            filter concept_shape (word_runs (dropWhile is_word (drop (length ?run) (c # cs))))"
          using "2.IH"(2) [OF m] lw by simp
        also have "dropWhile is_word (drop (length ?run) (c # cs)) = dropWhile is_word cs"
          unfolding dr using cw by simp
        finally show ?thesis using False wr sh by simp
      next
        case sh: False
        then have m: "match_here prev (c # cs) = None" using mh by simp
        have "findall_from prev (c # cs) = findall_from (Some c) cs" using m by simp
        also have "\<dots> = filter concept_shape (word_runs (dropWhile is_word cs))"
          using "2.IH"(1) [OF m] cw by simp
        finally show ?thesis using False wr sh by simp
      qed
    qed
  qed
qed

lemma re_findall_runs: "re_findall s = filter concept_shape (word_runs s)"
  by (simp add: re_findall_def findall_from_runs)

subsection \<open>The extraction loop as a whole\<close>

lemma fold_insert_image: "fold (\<lambda>w C. insert (f w) C) ws C = C \<union> f ` set ws"
  by (induction ws arbitrary: C) auto

lemma re_findall_Nil: "re_findall [] = []"
  by (simp add: re_findall_def)

lemma extract_step_eq:
  "extract_step s (C, R) =
     (C \<union> py_lower ` set (re_findall (py_strip s)),
      R @ map relation_of (filter (\<lambda>t. 3 \<le> length (py_split t))
            (filter (\<lambda>t. t \<noteq> []) [py_strip s])))"
  by (simp add: extract_step_def Let_def fold_insert_image relation_of_def re_findall_Nil)

lemma fold_extract_step:
  "fold extract_step ss (C, R) =
     (C \<union> (\<Union>s\<in>set ss. py_lower ` set (re_findall (py_strip s))),
      R @ map relation_of (filter (\<lambda>t. 3 \<le> length (py_split t))
            (filter (\<lambda>t. t \<noteq> []) (map py_strip ss))))"
proof (induction ss arbitrary: C R)
  case Nil
  show ?case by simp
next
  case (Cons s ss)
  show ?case
    unfolding fold_Cons comp_def extract_step_eq Cons.IH
    by (simp add: Un_assoc)
qed

lemma split_on_pieces: "\<forall>p\<in>set (split_on d s). \<forall>c\<in>set p. \<not> d c"
  by (induction s) (auto split: list.splits)

lemma py_split_token: "t \<in> set (py_split s) \<Longrightarrow> t \<noteq> [] \<and> (\<forall>c\<in>set t. \<not> is_space c)"
  using split_on_pieces [of is_space s] by (auto simp: py_split_def)

lemma py_join_not_Nil: "xs \<noteq> [] \<Longrightarrow> hd xs \<noteq> [] \<Longrightarrow> py_join sep xs \<noteq> []"
  by (induction sep xs rule: py_join.induct) auto

lemma middle_tokens:
  assumes "3 \<le> length parts"
  shows "middle parts \<noteq> []" and "set (middle parts) \<subseteq> set parts"
proof -
  from assms obtain a b rest where p: "parts = a # b # rest" "rest \<noteq> []"
    by (cases parts; cases "tl parts"; cases "tl (tl parts)") auto
  then show "middle parts \<noteq> []" by (simp add: middle_def)
  show "set (middle parts) \<subseteq> set parts"
    using p by (auto simp: middle_def dest: in_set_butlastD)
qed

lemma predicate_not_Nil:
  assumes "3 \<le> length (py_split s)"
  shows "py_join sep (middle (py_split s)) \<noteq> []"
proof -
  have ne: "middle (py_split s) \<noteq> []" using assms by (rule middle_tokens)
  then have "hd (middle (py_split s)) \<in> set (py_split s)"
    using middle_tokens(2) [OF assms] by auto
  then have "hd (middle (py_split s)) \<noteq> []" by (auto dest: py_split_token)
  with ne show ?thesis by (rule py_join_not_Nil)
qed

subsection \<open>C1: one relation for each sentence of three tokens or more\<close>

text \<open>
  C1, as amended. For every input text the relations are, in the order of the sentences,
  the relations read off the sentences that have at least three tokens, one for each,
  and none for a sentence with fewer. The predicate is the tokens strictly between the
  first and the last joined by single spaces; it is never empty, and for a sentence of
  exactly three tokens it is the middle token. The sentence
  "Plants absorb sunlight through photosynthesis" gives
  ("Plants", "absorb sunlight through", "Photosynthesis").
\<close>

theorem extraction_relations:
  "snd (extraction user_text) =
     map relation_of (filter (\<lambda>s. 3 \<le> length (py_split s)) (sentences user_text)) \<and>
   (\<forall>s. 3 \<le> length (py_split s) \<longrightarrow> fst (snd (relation_of s)) \<noteq> []) \<and>
   (\<forall>s a b c. py_split s = [a, b, c] \<longrightarrow> relation_of s = (capitalize a, b, capitalize c)) \<and>
   snd (extraction (lit ''Plants absorb sunlight through photosynthesis'')) =
     [(lit ''Plants'', lit ''absorb sunlight through'', lit ''Photosynthesis'')]"
proof (intro conjI allI impI)
  show "snd (extraction user_text) =
     map relation_of (filter (\<lambda>s. 3 \<le> length (py_split s)) (sentences user_text))"
    by (simp add: extraction_def fold_extract_step sentences_def)
next
  fix s assume "3 \<le> length (py_split s)"
  then show "fst (snd (relation_of s)) \<noteq> []"
    by (simp add: relation_of_def predicate_not_Nil)
next
  fix s a b c assume "py_split s = [a, b, c]"
  then show "relation_of s = (capitalize a, b, capitalize c)"
    by (simp add: relation_of_def middle_def)
next
  show "snd (extraction (lit ''Plants absorb sunlight through photosynthesis'')) =
     [(lit ''Plants'', lit ''absorb sunlight through'', lit ''Photosynthesis'')]"
    by code_simp
qed

text \<open>The theorem at a text of three sentences, of which only the second has three tokens.\<close>

theorem extraction_relations_witness:
  "snd (extraction (lit ''Hi there. Oxygen supports life. Go!'')) = [(lit ''Oxygen'', lit ''supports'', lit ''Life'')] \<and>
   3 \<le> length (py_split (lit ''Oxygen supports life'')) \<and>
   fst (snd (relation_of (lit ''Oxygen supports life''))) \<noteq> [] \<and>
   relation_of (lit ''Oxygen supports life'') = (capitalize (lit ''Oxygen''), lit ''supports'', capitalize (lit ''life''))"
proof -
  note t = extraction_relations [of "(lit ''Hi there. Oxygen supports life. Go!'')"]
  have s: "filter (\<lambda>s. 3 \<le> length (py_split s)) (sentences (lit ''Hi there. Oxygen supports life. Go!''))
      = [lit ''Oxygen supports life'']" by code_simp
  have p: "py_split (lit ''Oxygen supports life'') = [lit ''Oxygen'', lit ''supports'', lit ''life'']" by code_simp
  have c: "capitalize (lit ''Oxygen'') = (lit ''Oxygen'')" "capitalize (lit ''life'') = (lit ''Life'')" by code_simp+
  have r: "relation_of (lit ''Oxygen supports life'') = (capitalize (lit ''Oxygen''), lit ''supports'', capitalize (lit ''life''))"
    using t p by blast
  have l: "3 \<le> length (py_split (lit ''Oxygen supports life''))" unfolding p by simp
  then have n: "fst (snd (relation_of (lit ''Oxygen supports life''))) \<noteq> []" using t by blast
  from t have "snd (extraction (lit ''Hi there. Oxygen supports life. Go!'')) =
      map relation_of (filter (\<lambda>s. 3 \<le> length (py_split s))
        (sentences (lit ''Hi there. Oxygen supports life. Go!'')))" by blast
  then have "snd (extraction (lit ''Hi there. Oxygen supports life. Go!'')) =
      [relation_of (lit ''Oxygen supports life'')]"
    unfolding s by (simp only: list.map)
  then have "snd (extraction (lit ''Hi there. Oxygen supports life. Go!'')) =
      [(lit ''Oxygen'', lit ''supports'', lit ''Life'')]"
    unfolding r c .
  then show ?thesis using l n r by blast
qed

text \<open>
  C1 as stated says that the predicate of a sentence of exactly three tokens is the
  empty string. "Oxygen supports life" has three tokens and the predicate "supports".
\<close>

theorem predicate_three_tokens_counterexample:
  "length (py_split (lit ''Oxygen supports life'')) = 3 \<and>
   snd (extraction (lit ''Oxygen supports life'')) = [(lit ''Oxygen'', lit ''supports'', lit ''Life'')] \<and>
   (lit ''supports'') \<noteq> []"
  by code_simp

subsection \<open>C2: the concepts of a sentence\<close>

text \<open>
  C2, as amended. For every sentence, the pattern finds exactly the words (maximal runs of
  word characters) that consist of an optional single upper-case letter followed by
  three or more lower-case letters, and the loop inserts the lower-casing of exactly
  those into the concept set. A word of one upper-case letter followed by exactly two
  lower-case letters, such as "Dog", is not of that shape, while "Dogs" and "dog" are.
\<close>

theorem concepts_of_sentence:
  "re_findall s = filter concept_shape (word_runs s) \<and>
   fst (extract_step s (C, R)) =
     C \<union> py_lower ` {w \<in> set (word_runs (py_strip s)). concept_shape w} \<and>
   \<not> concept_shape (lit ''Dog'') \<and> concept_shape (lit ''Dogs'') \<and> concept_shape (lit ''dog'')"
proof (intro conjI)
  show "re_findall s = filter concept_shape (word_runs s)" by (rule re_findall_runs)
  have "set (filter concept_shape (word_runs (py_strip s))) =
      {w \<in> set (word_runs (py_strip s)). concept_shape w}" by auto
  then show "fst (extract_step s (C, R)) =
     C \<union> py_lower ` {w \<in> set (word_runs (py_strip s)). concept_shape w}"
    by (simp only: extract_step_eq fst_conv re_findall_runs)
  show "\<not> concept_shape (lit ''Dog'')" by code_simp
  show "concept_shape (lit ''Dogs'')" by code_simp
  show "concept_shape (lit ''dog'')" by code_simp
qed

text \<open>The theorem at a sentence with words of both kinds, on a concept set that is not empty.\<close>

theorem concepts_of_sentence_witness:
  "fst (extract_step (lit ''  Dogs chase the dog, a Dog and 3cats  '') ({lit ''cat''}, [])) =
     {(lit ''cat''), lit ''dogs'', lit ''chase'', lit ''the'', lit ''dog'', (lit ''and'')}"
proof -
  have w: "word_runs (py_strip (lit ''  Dogs chase the dog, a Dog and 3cats  '')) =
      [lit ''Dogs'', lit ''chase'', lit ''the'', lit ''dog'', lit ''a'', lit ''Dog'', lit ''and'', lit ''3cats'']"
    by code_simp
  have f: "py_lower ` {w \<in> set [lit ''Dogs'', lit ''chase'', lit ''the'', lit ''dog'', lit ''a'', lit ''Dog'', lit ''and'', lit ''3cats'']. concept_shape w}
     = {(lit ''dogs''), lit ''chase'', lit ''the'', lit ''dog'', (lit ''and'')}"
    by code_simp
  show ?thesis
    using concepts_of_sentence [of "(lit ''  Dogs chase the dog, a Dog and 3cats  '')" "{lit ''cat''}" "[]"]
    unfolding w f by auto
qed

text \<open>
  C2 as stated says that "Dog" is extracted as a concept. The text "Dog" yields no
  concept at all.
\<close>

theorem dog_not_extracted_counterexample:
  "py_lower (lit ''Dog'') = (lit ''dog'') \<and> (lit ''dog'') \<notin> fst (extraction (lit ''Dog'')) \<and> fst (extraction (lit ''Dog'')) = {}"
  by code_simp

subsection \<open>C3: subject and object are the capitalised first and last token\<close>

lemma capitalize_token: "t \<noteq> [] \<Longrightarrow> capitalize t = title_char (hd t) @ map lower_char (tl t)"
  by (cases t) (simp_all add: capitalize_def)

lemma ascii_tables:
  "list_all (\<lambda>n. title_char (Latin1 (char_of n)) = [Latin1 (ascii_upper (char_of n))] \<and>
                 lower_char (Latin1 (char_of n)) = Latin1 (ascii_lower (char_of n)))
     [0..<128]"
  by code_simp

lemma ascii_case:
  assumes "of_char c < (128::nat)"
  shows "title_char (Latin1 c) = [Latin1 (ascii_upper c)] \<and>
         lower_char (Latin1 c) = Latin1 (ascii_lower c)"
proof -
  have "of_char c \<in> set [0..<128]" using assms by simp
  then have "title_char (Latin1 (char_of (of_char c :: nat))) =
        [Latin1 (ascii_upper (char_of (of_char c :: nat)))] \<and>
      lower_char (Latin1 (char_of (of_char c :: nat))) =
        Latin1 (ascii_lower (char_of (of_char c :: nat)))"
    using ascii_tables unfolding list_all_iff by blast
  then show ?thesis by simp
qed

text \<open>
  C3, as amended. For every sentence with at least three tokens, the subject of the
  emitted relation is the first token with its first character in title case and all
  its other characters in lower case, and the object is the last token transformed the
  same way. On ASCII the title case of a letter a-z is the letter A-Z at the same
  place of the alphabet, the lower case of a letter A-Z is the letter a-z at the same
  place, and every other character is its own title case and lower case.
\<close>

theorem relation_capitalized:
  assumes "3 \<le> length (py_split (py_strip s))"
  shows "snd (extract_step s (C, R)) =
     R @ [(let parts = py_split (py_strip s); first = hd parts; final = last parts
           in (title_char (hd first) @ map lower_char (tl first),
               py_join (lit '' '') (middle parts),
               title_char (hd final) @ map lower_char (tl final)))] \<and>
   (\<forall>c. of_char c < (128::nat) \<longrightarrow>
      title_char (Latin1 c) = [Latin1 (ascii_upper c)] \<and>
      lower_char (Latin1 c) = Latin1 (ascii_lower c))"
proof (intro conjI allI impI)
  let ?parts = "py_split (py_strip s)"
  have ne: "?parts \<noteq> []" using assms by auto
  then have "hd ?parts \<in> set ?parts" "last ?parts \<in> set ?parts" by simp_all
  then have t: "hd ?parts \<noteq> []" "last ?parts \<noteq> []" by (auto dest: py_split_token)
  have "py_strip s \<noteq> []" using ne by (auto simp: py_split_def)
  then show "snd (extract_step s (C, R)) =
     R @ [(let parts = py_split (py_strip s); first = hd parts; final = last parts
           in (title_char (hd first) @ map lower_char (tl first),
               py_join (lit '' '') (middle parts),
               title_char (hd final) @ map lower_char (tl final)))]"
    using assms
    by (simp add: extract_step_eq relation_of_def Let_def capitalize_token [OF t(1)]
        capitalize_token [OF t(2)])
next
  fix c :: char assume "of_char c < (128::nat)"
  then show "title_char (Latin1 c) = [Latin1 (ascii_upper c)]"
    and "lower_char (Latin1 c) = Latin1 (ascii_lower c)"
    using ascii_case by blast+
qed

text \<open>
  The theorem at "DNA encodes proteins", with white space around it, and at the
  letters that the two tokens begin with.
\<close>

theorem relation_capitalized_witness:
  "3 \<le> length (py_split (py_strip (lit '' DNA encodes proteins ''))) \<and>
   snd (extract_step (lit '' DNA encodes proteins '') ({}, [])) =
     [(lit ''Dna'', lit ''encodes'', lit ''Proteins'')] \<and>
   of_char CHR ''p'' < (128::nat) \<and> title_char (Latin1 CHR ''p'') = [Latin1 CHR ''P''] \<and>
   of_char CHR ''N'' < (128::nat) \<and> lower_char (Latin1 CHR ''N'') = Latin1 CHR ''n''"
proof -
  have p: "py_split (py_strip (lit '' DNA encodes proteins '')) =
      [lit ''DNA'', lit ''encodes'', lit ''proteins'']"
    by code_simp
  then have h: "3 \<le> length (py_split (py_strip (lit '' DNA encodes proteins '')))" by simp
  have v: "(let parts = py_split (py_strip (lit '' DNA encodes proteins '')); first = hd parts;
               final = last parts
           in (title_char (hd first) @ map lower_char (tl first),
               py_join (lit '' '') (middle parts),
               title_char (hd final) @ map lower_char (tl final))) =
      (lit ''Dna'', lit ''encodes'', lit ''Proteins'')"
    by code_simp
  note t = relation_capitalized [OF h, of "{}" "[]", unfolded v]
  have a: "of_char CHR ''p'' < (128::nat)" "of_char CHR ''N'' < (128::nat)" by simp_all
  have u: "ascii_upper CHR ''p'' = CHR ''P''" "ascii_lower CHR ''N'' = CHR ''n''"
    by (simp_all add: ascii_upper_def ascii_lower_def)
  from t have r: "snd (extract_step (lit '' DNA encodes proteins '') ({}, [])) =
     [(lit ''Dna'', lit ''encodes'', lit ''Proteins'')]"
    by (simp only: append_Nil simp_thms)
  from t a(1) have "title_char (Latin1 CHR ''p'') = [Latin1 (ascii_upper CHR ''p'')]" by blast
  moreover from t a(2) have "lower_char (Latin1 CHR ''N'') = Latin1 (ascii_lower CHR ''N'')" by blast
  ultimately show ?thesis using h r a unfolding u by blast
qed

text \<open>
  C3 as stated says that the characters after the first keep their case, so that the
  first token "DNA" gives the subject "DNA". It gives "Dna".
\<close>

theorem original_casing_counterexample:
  "hd (py_split (lit ''DNA encodes proteins'')) = (lit ''DNA'') \<and>
   snd (extraction (lit ''DNA encodes proteins'')) = [(lit ''Dna'', lit ''encodes'', lit ''Proteins'')] \<and>
   (lit ''Dna'') \<noteq> (lit ''DNA'')"
  by code_simp

subsection \<open>C4: the type assertions of the RDF graph\<close>

lemma fold_add_relation:
  "fold add_relation rels g =
     g \<union> (\<Union>(subj, pred, obj)\<in>set rels.
             {(ex subj, RDF_type, RDFS_Class), (ex obj, RDF_type, RDFS_Class),
              (ex subj, ex (replace_space pred), ex obj)})"
  by (induction rels arbitrary: g) (auto simp: add_relation_def Let_def)

text \<open>
  C4, as amended. The graph built from any list of relations holds, for each relation,
  the type statement of its subject, the type statement of its object and one edge
  whose predicate is the predicate with its spaces replaced by underscores, under the
  fixed namespace, and nothing else. Every node other than the generic "Class" type
  itself that is the subject or the object of some statement has a type assertion to
  that type.
\<close>

theorem rdf_graph_typed:
  "rdf_graph rels =
     (\<Union>(subj, pred, obj)\<in>set rels.
        {(ex subj, RDF_type, RDFS_Class), (ex obj, RDF_type, RDFS_Class),
         (ex subj, ex (replace_space pred), ex obj)}) \<and>
   (\<forall>n p m. ((n, p, m) \<in> rdf_graph rels \<or> (m, p, n) \<in> rdf_graph rels) \<and> n \<noteq> RDFS_Class \<longrightarrow>
      (n, RDF_type, RDFS_Class) \<in> rdf_graph rels)"
proof (intro conjI allI impI)
  show g: "rdf_graph rels =
     (\<Union>(subj, pred, obj)\<in>set rels.
        {(ex subj, RDF_type, RDFS_Class), (ex obj, RDF_type, RDFS_Class),
         (ex subj, ex (replace_space pred), ex obj)})"
    by (simp add: rdf_graph_def fold_add_relation)
  fix n p m
  assume a: "((n, p, m) \<in> rdf_graph rels \<or> (m, p, n) \<in> rdf_graph rels) \<and> n \<noteq> RDFS_Class"
  then show "(n, RDF_type, RDFS_Class) \<in> rdf_graph rels"
    unfolding g by fastforce
qed

text \<open>The theorem at one relation: the object of its edge is typed.\<close>

theorem rdf_graph_typed_witness:
  "(ex (lit ''Plants''), ex (lit ''absorb_light''), ex (lit ''Sunlight'')) \<in> rdf_graph [(lit ''Plants'', lit ''absorb light'', lit ''Sunlight'')] \<and>
   ex (lit ''Sunlight'') \<noteq> RDFS_Class \<and>
   (ex (lit ''Sunlight''), RDF_type, RDFS_Class) \<in> rdf_graph [(lit ''Plants'', lit ''absorb light'', lit ''Sunlight'')]"
proof -
  note t = rdf_graph_typed [of "[(lit ''Plants'', lit ''absorb light'', lit ''Sunlight'')]"]
  have e: "(ex (lit ''Plants''), ex (lit ''absorb_light''), ex (lit ''Sunlight'')) \<in> rdf_graph [(lit ''Plants'', lit ''absorb light'', lit ''Sunlight'')]"
    by (simp add: rdf_graph_def add_relation_def Let_def replace_space_def)
  have n: "ex (lit ''Sunlight'') \<noteq> RDFS_Class" by (simp add: ex_def RDFS_Class_def)
  from t e n have "(ex (lit ''Sunlight''), RDF_type, RDFS_Class) \<in> rdf_graph [(lit ''Plants'', lit ''absorb light'', lit ''Sunlight'')]"
    by blast
  with e n show ?thesis by blast
qed

text \<open>
  C4 as stated covers every node in object position. The "Class" type is the object of
  each type statement, and no statement gives it a type.
\<close>

theorem class_node_untyped_counterexample:
  "(ex (lit ''Plants''), RDF_type, RDFS_Class) \<in> rdf_graph [(lit ''Plants'', lit ''absorb'', lit ''Sunlight'')] \<and>
   (RDFS_Class, RDF_type, RDFS_Class) \<notin> rdf_graph [(lit ''Plants'', lit ''absorb'', lit ''Sunlight'')]"
  by (simp add: rdf_graph_def add_relation_def Let_def ex_def RDF_type_def RDFS_Class_def)

subsection \<open>C5: the query keeps the relations with an end point in the question\<close>

lemma py_in_sublist: "py_in x y \<longleftrightarrow> (\<exists>ps ss. y = ps @ x @ ss)"
proof (induction y)
  case Nil
  show ?case by auto
next
  case (Cons c cs)
  have "(\<exists>ps ss. c # cs = ps @ x @ ss) \<longleftrightarrow> prefix x (c # cs) \<or> (\<exists>ps ss. cs = ps @ x @ ss)"
  proof
    assume "\<exists>ps ss. c # cs = ps @ x @ ss"
    then obtain ps ss where e: "c # cs = ps @ x @ ss" by blast
    show "prefix x (c # cs) \<or> (\<exists>ps ss. cs = ps @ x @ ss)"
    proof (cases ps)
      case Nil
      then show ?thesis using e by (auto simp: prefix_def)
    next
      case (Cons p ps')
      then have "cs = ps' @ x @ ss" using e by simp
      then show ?thesis by blast
    qed
  next
    assume "prefix x (c # cs) \<or> (\<exists>ps ss. cs = ps @ x @ ss)"
    then show "\<exists>ps ss. c # cs = ps @ x @ ss"
    proof
      assume "prefix x (c # cs)"
      then obtain ss where "c # cs = [] @ x @ ss" by (auto simp: prefix_def)
      then show ?thesis by blast
    next
      assume "\<exists>ps ss. cs = ps @ x @ ss"
      then obtain ps ss where "cs = ps @ x @ ss" by blast
      then have "c # cs = (c # ps) @ x @ ss" by simp
      then show ?thesis by blast
    qed
  qed
  then show ?case using Cons.IH by simp
qed

lemma fold_found:
  "fold (\<lambda>r found. case r of (subj, pred, obj) \<Rightarrow>
           if P subj obj then found @ [f subj pred obj] else found) rels acc =
     acc @ map (\<lambda>(subj, pred, obj). f subj pred obj)
             (filter (\<lambda>(subj, pred, obj). P subj obj) rels)"
  by (induction rels arbitrary: acc) auto

lemma fold_append: "fold (\<lambda>r out. out @ [f r]) rels acc = acc @ map f rels"
  by (induction rels arbitrary: acc) auto

text \<open>
  C5. For every list of relations and every question, the query returns, in the order
  of the list, the descriptions of exactly those relations whose subject or object,
  both sides in lower case, occurs as a substring of the question; a relation of which
  neither occurs is left out. With nothing found the handler raises nothing: it leaves
  the state as it is and renders the notice that no relation matches.
\<close>

theorem run_query_matches:
  "run_query rels query =
     map (\<lambda>(subj, pred, obj). subj @ (lit '' --['') @ pred @ (lit '']--> '') @ obj)
       (filter (\<lambda>(subj, pred, obj).
                  (\<exists>ps ss. py_lower query = ps @ py_lower subj @ ss) \<or>
                  (\<exists>ps ss. py_lower query = ps @ py_lower obj @ ss)) rels) \<and>
   (relations st = Some rels \<and> run_query rels query = [] \<longrightarrow>
      semantic_queries True query st = (st, [StError (lit ''No matching semantic relations found.'')]))"
proof (intro conjI impI)
  have "run_query rels query =
      map (\<lambda>(subj, pred, obj). subj @ (lit '' --['') @ pred @ (lit '']--> '') @ obj)
       (filter (\<lambda>(subj, pred, obj). py_in (py_lower subj) (py_lower query) \<or>
                  py_in (py_lower obj) (py_lower query)) rels)"
    unfolding run_query_def
    by (rule fold_found [where acc = "[]", unfolded append_Nil])
  then show "run_query rels query =
     map (\<lambda>(subj, pred, obj). subj @ (lit '' --['') @ pred @ (lit '']--> '') @ obj)
       (filter (\<lambda>(subj, pred, obj).
                  (\<exists>ps ss. py_lower query = ps @ py_lower subj @ ss) \<or>
                  (\<exists>ps ss. py_lower query = ps @ py_lower obj @ ss)) rels)"
    by (simp only: py_in_sublist)
next
  assume "relations st = Some rels \<and> run_query rels query = []"
  then show "semantic_queries True query st = (st, [StError (lit ''No matching semantic relations found.'')])"
    by (simp add: semantic_queries_def)
qed

text \<open>
  The theorem at a question that names one end point in another case, and at one that
  names none.
\<close>

theorem run_query_matches_witness:
  "run_query [(lit ''Plants'', lit ''absorb'', lit ''Sunlight''), (lit ''Oxygen'', lit ''supports'', lit ''Life''),
              (lit ''Photosynthesis'', lit ''produces'', lit ''Oxygen'')] (lit ''What does OXYGEN relate to?'') =
     [lit ''Oxygen --[supports]--> Life'', lit ''Photosynthesis --[produces]--> Oxygen''] \<and>
   run_query [(lit ''Plants'', lit ''absorb'', lit ''Sunlight'')] (lit ''Where is water?'') = [] \<and>
   semantic_queries True (lit ''Where is water?'')
     \<lparr>relations = Some [(lit ''Plants'', lit ''absorb'', lit ''Sunlight'')], concepts = None, rdf = None, owl = None\<rparr> =
   (\<lparr>relations = Some [(lit ''Plants'', lit ''absorb'', lit ''Sunlight'')], concepts = None, rdf = None, owl = None\<rparr>,
    [StError (lit ''No matching semantic relations found.'')])"
proof -
  have a: "run_query [(lit ''Plants'', lit ''absorb'', lit ''Sunlight''), (lit ''Oxygen'', lit ''supports'', lit ''Life''),
              (lit ''Photosynthesis'', lit ''produces'', lit ''Oxygen'')] (lit ''What does OXYGEN relate to?'') =
     [lit ''Oxygen --[supports]--> Life'', lit ''Photosynthesis --[produces]--> Oxygen'']"
    by code_simp
  have b: "run_query [(lit ''Plants'', lit ''absorb'', lit ''Sunlight'')] (lit ''Where is water?'') = []"
    by code_simp
  let ?st = "\<lparr>relations = Some [(lit ''Plants'', lit ''absorb'', lit ''Sunlight'')], concepts = None, rdf = None, owl = None\<rparr>"
  have "relations ?st = Some [(lit ''Plants'', lit ''absorb'', lit ''Sunlight'')]" by simp
  with b run_query_matches [of "[(lit ''Plants'', lit ''absorb'', lit ''Sunlight'')]" "(lit ''Where is water?'')" ?st]
  have "semantic_queries True (lit ''Where is water?'') ?st =
      (?st, [StError (lit ''No matching semantic relations found.'')])" by blast
  with a b show ?thesis by blast
qed

subsection \<open>C6: a blank text gives a warning and leaves the state alone\<close>

lemma py_strip_blank: "\<forall>c\<in>set t. is_space c \<Longrightarrow> py_strip t = []"
proof -
  assume "\<forall>c\<in>set t. is_space c"
  then have d: "dropWhile is_space t = []" by simp
  show ?thesis unfolding py_strip_def d by simp
qed

text \<open>
  C6. For every input text that is empty or holds white space only, pressing the button
  renders the warning, raises nothing, and leaves the session state, with whatever
  relations, concepts, RDF text and OWL text it holds, exactly as it was.
\<close>

theorem generate_blank_text:
  assumes "\<forall>c\<in>set user_text. is_space c"
  shows "ontology_builder rt True user_text st =
           (st, Inr [StWarning (lit ''Please enter text before generating ontology.'')])"
  using py_strip_blank [OF assms] by (simp add: ontology_builder_def)

text \<open>The theorem at a text of a space, a tab and a line feed, on a state that holds a store.\<close>

theorem generate_blank_text_witness:
  "is_space (Latin1 CHR '' '') \<and> is_space ((Latin1 (CHR 0x09))) \<and> is_space newline \<and>
   ontology_builder
     \<lparr>set_iter = (\<lambda>S. []), graph_iter = (\<lambda>g. []),
      serialize_turtle = (\<lambda>g. Inl SerializerError), parse_turtle = (\<lambda>k t. Inl ParserError)\<rparr>
     True [(Latin1 CHR '' ''), (Latin1 (CHR 0x09)), newline]
     \<lparr>relations = Some [(lit ''Plants'', lit ''absorb'', lit ''Sunlight'')], concepts = Some {lit ''plants''},
      rdf = Some (lit ''ttl''), owl = Some (lit ''Class: Plants'')\<rparr> =
   (\<lparr>relations = Some [(lit ''Plants'', lit ''absorb'', lit ''Sunlight'')], concepts = Some {lit ''plants''},
     rdf = Some (lit ''ttl''), owl = Some (lit ''Class: Plants'')\<rparr>,
    Inr [StWarning (lit ''Please enter text before generating ontology.'')])"
proof -
  have s: "is_space (Latin1 CHR '' '')" "is_space ((Latin1 (CHR 0x09)))" "is_space newline"
    by (simp_all add: is_space_def newline_def)
  then have h: "\<forall>c\<in>set [(Latin1 CHR '' ''), (Latin1 (CHR 0x09)), newline]. is_space c" by simp
  from s generate_blank_text [OF h] show ?thesis by blast
qed

subsection \<open>C7: the lines of the OWL listing\<close>

lemma lower_az: "is_az c \<Longrightarrow> lower_char c = c"
  by (cases c) (auto simp: is_az_def lower_char_def Let_def)

lemma lower_AZ: "is_AZ c \<Longrightarrow> is_az (lower_char c)"
  by (cases c) (auto simp: is_AZ_def is_az_def lower_char_def Let_def)

lemma title_az: "is_az c \<Longrightarrow> \<exists>u. title_char c = [u] \<and> lower_char u = c"
  by (cases c) (auto simp: is_az_def title_char_def lower_char_def Let_def)

lemma concept_shape_lower: "concept_shape w \<Longrightarrow> x \<in> set (py_lower w) \<Longrightarrow> is_az x"
  by (cases w) (auto simp: concept_shape_def py_lower_def list_all_iff lower_az lower_AZ)

lemma concepts_az: "c \<in> fst (extraction user_text) \<Longrightarrow> x \<in> set c \<Longrightarrow> is_az x"
  by (auto simp: extraction_def fold_extract_step re_findall_runs dest: concept_shape_lower)

lemma capitalize_az:
  assumes "\<forall>x\<in>set (c # cs). is_az x"
  shows "\<exists>u. capitalize (c # cs) = u # cs \<and> lower_char u = c"
proof -
  from assms have "is_az c" by simp
  then obtain u where u: "title_char c = [u]" "lower_char u = c" using title_az by blast
  have "map lower_char cs = cs" using assms by (simp add: map_idI lower_az)
  then show ?thesis using u by (simp add: capitalize_def)
qed

lemma capitalize_inj:
  assumes "\<forall>x\<in>set a. is_az x" and "\<forall>x\<in>set b. is_az x" and "capitalize a = capitalize b"
  shows "a = b"
proof (cases a)
  case Nil
  show ?thesis
  proof (cases b)
    case Nil
    then show ?thesis using \<open>a = []\<close> by simp
  next
    case (Cons y ys)
    then obtain v where "capitalize b = v # ys" using capitalize_az assms(2) by blast
    then show ?thesis using assms(3) \<open>a = []\<close> by (simp add: capitalize_def)
  qed
next
  case a: (Cons x xs)
  then obtain u where u: "capitalize a = u # xs" "lower_char u = x"
    using capitalize_az assms(1) by blast
  show ?thesis
  proof (cases b)
    case Nil
    then show ?thesis using assms(3) u by (simp add: capitalize_def)
  next
    case (Cons y ys)
    then obtain v where v: "capitalize b = v # ys" "lower_char v = y"
      using capitalize_az assms(2) by blast
    from assms(3) u(1) v(1) have "u = v" "xs = ys" by simp_all
    then show ?thesis using a Cons u(2) v(2) by simp
  qed
qed

text \<open>
  C7, as amended. The OWL listing holds one "Class: X" line, X in capitalised form, for
  each concept of the concept set, in the order the set is iterated, followed by one
  object-property block for each relation of the list, so that a relation that is
  repeated gives a repeated block. The concept set holds each concept once, and no two
  of its concepts give the same line: the class lines are free of duplicates, however
  many relations a concept occurs in.
\<close>

theorem owl_output_lines:
  assumes "set cs = fst (extraction user_text)" and "distinct cs"
  shows "owl_output cs rels =
           map (\<lambda>c. (lit ''Class: '') @ capitalize c) cs @
           map (\<lambda>(subj, pred, obj). (lit ''ObjectProperty: '') @ replace_space pred @ [newline] @
                  (lit ''  Domain: '') @ subj @ [newline] @ (lit ''  Range: '') @ obj) rels \<and>
         distinct (map (\<lambda>c. (lit ''Class: '') @ capitalize c) cs) \<and>
         length cs = card (fst (extraction user_text))"
proof (intro conjI)
  show "owl_output cs rels =
           map (\<lambda>c. (lit ''Class: '') @ capitalize c) cs @
           map (\<lambda>(subj, pred, obj). (lit ''ObjectProperty: '') @ replace_space pred @ [newline] @
                  (lit ''  Domain: '') @ subj @ [newline] @ (lit ''  Range: '') @ obj) rels"
    by (simp add: owl_output_def fold_append case_prod_unfold)
  have "inj_on (\<lambda>c. (lit ''Class: '') @ capitalize c) (set cs)"
  proof (rule inj_onI)
    fix a b
    assume a: "a \<in> set cs" and b: "b \<in> set cs"
      and e: "(lit ''Class: '') @ capitalize a = (lit ''Class: '') @ capitalize b"
    from e have "capitalize a = capitalize b" by (simp only: same_append_eq)
    moreover have "a \<in> fst (extraction user_text)" "b \<in> fst (extraction user_text)"
      using a b assms(1) by blast+
    then have "\<forall>x\<in>set a. is_az x" "\<forall>x\<in>set b. is_az x" using concepts_az by blast+
    ultimately show "a = b" by (rule capitalize_inj [rotated 2])
  qed
  then show "distinct (map (\<lambda>c. (lit ''Class: '') @ capitalize c) cs)"
    using assms(2) by (simp add: distinct_map)
  show "length cs = card (fst (extraction user_text))"
    unfolding assms(1) [symmetric] using assms(2) by (rule distinct_card [symmetric])
qed

text \<open>The theorem at a text that says the same sentence twice.\<close>

theorem owl_output_lines_witness:
  "set [lit ''cats'', lit ''chase'', lit ''mice''] = fst (extraction (lit ''Cats chase mice. Cats chase mice.'')) \<and>
   distinct [lit ''cats'', lit ''chase'', lit ''mice''] \<and>
   snd (extraction (lit ''Cats chase mice. Cats chase mice.'')) =
     [(lit ''Cats'', lit ''chase'', lit ''Mice''), (lit ''Cats'', lit ''chase'', lit ''Mice'')] \<and>
   owl_output [lit ''cats'', lit ''chase'', lit ''mice''] (snd (extraction (lit ''Cats chase mice. Cats chase mice.''))) =
     [lit ''Class: Cats'', lit ''Class: Chase'', lit ''Class: Mice'',
      (lit ''ObjectProperty: chase'') @ [newline] @ (lit ''  Domain: Cats'') @ [newline] @ (lit ''  Range: Mice''),
      (lit ''ObjectProperty: chase'') @ [newline] @ (lit ''  Domain: Cats'') @ [newline] @ (lit ''  Range: Mice'')]"
proof -
  have s: "set [lit ''cats'', lit ''chase'', lit ''mice''] = fst (extraction (lit ''Cats chase mice. Cats chase mice.''))"
    by code_simp
  have d: "distinct [lit ''cats'', lit ''chase'', lit ''mice'']" by simp
  have r: "snd (extraction (lit ''Cats chase mice. Cats chase mice.'')) =
     [(lit ''Cats'', lit ''chase'', lit ''Mice''), (lit ''Cats'', lit ''chase'', lit ''Mice'')]" by code_simp
  have c: "map (\<lambda>c. (lit ''Class: '') @ capitalize c) [lit ''cats'', lit ''chase'', lit ''mice''] =
      [lit ''Class: Cats'', lit ''Class: Chase'', lit ''Class: Mice'']" by code_simp
  have p: "replace_space (lit ''chase'') = (lit ''chase'')" by (simp add: replace_space_def)
  from owl_output_lines [OF s d, of "snd (extraction (lit ''Cats chase mice. Cats chase mice.''))"]
  have "owl_output [lit ''cats'', lit ''chase'', lit ''mice''] (snd (extraction (lit ''Cats chase mice. Cats chase mice.''))) =
     [lit ''Class: Cats'', lit ''Class: Chase'', lit ''Class: Mice'',
      (lit ''ObjectProperty: chase'') @ [newline] @ (lit ''  Domain: Cats'') @ [newline] @ (lit ''  Range: Mice''),
      (lit ''ObjectProperty: chase'') @ [newline] @ (lit ''  Domain: Cats'') @ [newline] @ (lit ''  Range: Mice'')]"
    unfolding r c by (simp add: replace_space_def)
  with s d r show ?thesis by blast
qed

text \<open>
  C7 as stated has a class declaration repeated when a concept recurs through several
  relations with the same subject or object. For the text above the relation occurs
  twice and the line "Class: Cats" once.
\<close>

theorem class_line_once_counterexample:
  "count_list (snd (extraction (lit ''Cats chase mice. Cats chase mice.''))) (lit ''Cats'', lit ''chase'', lit ''Mice'') = 2 \<and>
   fst (extraction (lit ''Cats chase mice. Cats chase mice.'')) = {(lit ''cats''), lit ''chase'', (lit ''mice'')} \<and>
   count_list (owl_output [lit ''cats'', lit ''chase'', lit ''mice'']
                 (snd (extraction (lit ''Cats chase mice. Cats chase mice.'')))) (lit ''Class: Cats'') = 1"
  by code_simp

subsection \<open>C8: the merge is the union of the two graphs\<close>

lemma fold_insert_union: "fold insert xs g = g \<union> set xs"
  by (induction xs arbitrary: g) auto

text \<open>
  C8, as amended. For every pair of Turtle texts that parse, the merge returns the
  graph whose statements are those the base is parsed to together with those the
  upload is parsed to, in that run. When each of the two texts is parsed to the same
  graph at every parse, as a text without blank nodes is, the merge gives the same
  graph whichever of them is the base and whichever the upload.
\<close>

theorem merge_union:
  assumes "parse_turtle rt n b = Inr B" and "parse_turtle rt (Suc n) a = Inr A"
    and "set (graph_iter rt B) = B"
  shows "merge rt n a b = Inr (A \<union> B) \<and>
         ((\<forall>k. parse_turtle rt k a = Inr A) \<and> (\<forall>k. parse_turtle rt k b = Inr B) \<and>
          set (graph_iter rt A) = A \<longrightarrow> merge rt m b a = merge rt n a b)"
proof (intro conjI impI)
  show u: "merge rt n a b = Inr (A \<union> B)"
    using assms by (simp add: merge_def fold_insert_union)
  assume s: "(\<forall>k. parse_turtle rt k a = Inr A) \<and> (\<forall>k. parse_turtle rt k b = Inr B) \<and>
          set (graph_iter rt A) = A"
  then have "parse_turtle rt m a = Inr A" "parse_turtle rt (Suc m) b = Inr B"
    "set (graph_iter rt A) = A" by blast+
  then have "merge rt m b a = Inr (B \<union> A)"
    by (simp add: merge_def fold_insert_union)
  then show "merge rt m b a = merge rt n a b" using u by (simp add: Un_commute)
qed

text \<open>
  The theorem at two texts of one statement each and no blank node, merged in either
  order, in two runs.
\<close>

theorem merge_union_witness:
  "merge
     \<lparr>set_iter = (\<lambda>S. []),
      graph_iter = (\<lambda>g. if g = {(ex (lit ''Plants''), RDF_type, RDFS_Class)}
                          then [(ex (lit ''Plants''), RDF_type, RDFS_Class)]
                          else [(ex (lit ''Life''), RDF_type, RDFS_Class)]),
      serialize_turtle = (\<lambda>g. Inr (lit ''ttl'')),
      parse_turtle = (\<lambda>k t. if t = lit ''base'' then Inr {(ex (lit ''Plants''), RDF_type, RDFS_Class)}
                          else if t = lit ''upload'' then Inr {(ex (lit ''Life''), RDF_type, RDFS_Class)}
                          else Inl ParserError)\<rparr>
     0 (lit ''base'') (lit ''upload'') =
   Inr {(ex (lit ''Plants''), RDF_type, RDFS_Class), (ex (lit ''Life''), RDF_type, RDFS_Class)} \<and>
   merge
     \<lparr>set_iter = (\<lambda>S. []),
      graph_iter = (\<lambda>g. if g = {(ex (lit ''Plants''), RDF_type, RDFS_Class)}
                          then [(ex (lit ''Plants''), RDF_type, RDFS_Class)]
                          else [(ex (lit ''Life''), RDF_type, RDFS_Class)]),
      serialize_turtle = (\<lambda>g. Inr (lit ''ttl'')),
      parse_turtle = (\<lambda>k t. if t = lit ''base'' then Inr {(ex (lit ''Plants''), RDF_type, RDFS_Class)}
                          else if t = lit ''upload'' then Inr {(ex (lit ''Life''), RDF_type, RDFS_Class)}
                          else Inl ParserError)\<rparr>
     2 (lit ''upload'') (lit ''base'') =
   Inr {(ex (lit ''Plants''), RDF_type, RDFS_Class), (ex (lit ''Life''), RDF_type, RDFS_Class)}"
proof -
  let ?A = "{(ex (lit ''Plants''), RDF_type, RDFS_Class)}"
  let ?B = "{(ex (lit ''Life''), RDF_type, RDFS_Class)}"
  let ?rt = "\<lparr>set_iter = (\<lambda>S. []),
      graph_iter = (\<lambda>g. if g = ?A then [(ex (lit ''Plants''), RDF_type, RDFS_Class)]
                          else [(ex (lit ''Life''), RDF_type, RDFS_Class)]),
      serialize_turtle = (\<lambda>g. Inr (lit ''ttl'')),
      parse_turtle = (\<lambda>k t. if t = lit ''base'' then Inr ?A
                          else if t = lit ''upload'' then Inr ?B
                          else Inl ParserError)\<rparr>"
  have n: "ex (lit ''Plants'') \<noteq> ex (lit ''Life'')" by (simp add: ex_def)
  have 1: "parse_turtle ?rt k (lit ''base'') = Inr ?A" for k by simp
  have 2: "parse_turtle ?rt k (lit ''upload'') = Inr ?B" for k by simp
  have 3: "set (graph_iter ?rt ?A) = ?A" by simp
  have 4: "set (graph_iter ?rt ?B) = ?B" using n by simp
  have e: "?A \<union> ?B = {(ex (lit ''Plants''), RDF_type, RDFS_Class), (ex (lit ''Life''), RDF_type, RDFS_Class)}"
    by auto
  note t = merge_union [OF 2 1 4, of 0 2]
  from t have a: "merge ?rt 0 (lit ''base'') (lit ''upload'') = Inr (?A \<union> ?B)" by blast
  from t 1 2 3 have "merge ?rt 2 (lit ''upload'') (lit ''base'') =
      merge ?rt 0 (lit ''base'') (lit ''upload'')" by blast
  with a show ?thesis unfolding e by simp
qed

text \<open>
  C8 as stated has the result the same whichever text is the base, for every pair of
  texts that parse. Take a parser that, as rdflib does, names the blank node of
  "[] <p> <o> ." after the parse. Merging that text with "<s> <p> <o> ." gives a
  different graph when the two change places, and merging it with itself gives two
  statements, where the text holds one.
\<close>

theorem merge_blank_node_counterexample:
  "merge
     \<lparr>set_iter = (\<lambda>S. []),
      graph_iter = (\<lambda>g. if g = {(URIRef (lit ''s''), URIRef (lit ''p''), URIRef (lit ''o''))}
                          then [(URIRef (lit ''s''), URIRef (lit ''p''), URIRef (lit ''o''))]
                          else [(BNode (lit ''b''), URIRef (lit ''p''), URIRef (lit ''o''))]),
      serialize_turtle = (\<lambda>g. Inr (lit ''ttl'')),
      parse_turtle = (\<lambda>k t.
         if t = lit ''[] <p> <o> .''
         then Inr {(BNode (replicate (Suc k) (Latin1 CHR ''b'')), URIRef (lit ''p''), URIRef (lit ''o''))}
         else if t = lit ''<s> <p> <o> .''
         then Inr {(URIRef (lit ''s''), URIRef (lit ''p''), URIRef (lit ''o''))}
         else Inl ParserError)\<rparr>
     0 (lit ''[] <p> <o> .'') (lit ''<s> <p> <o> .'') =
   Inr {(BNode (lit ''bb''), URIRef (lit ''p''), URIRef (lit ''o'')),
        (URIRef (lit ''s''), URIRef (lit ''p''), URIRef (lit ''o''))} \<and>
   merge
     \<lparr>set_iter = (\<lambda>S. []),
      graph_iter = (\<lambda>g. if g = {(URIRef (lit ''s''), URIRef (lit ''p''), URIRef (lit ''o''))}
                          then [(URIRef (lit ''s''), URIRef (lit ''p''), URIRef (lit ''o''))]
                          else [(BNode (lit ''b''), URIRef (lit ''p''), URIRef (lit ''o''))]),
      serialize_turtle = (\<lambda>g. Inr (lit ''ttl'')),
      parse_turtle = (\<lambda>k t.
         if t = lit ''[] <p> <o> .''
         then Inr {(BNode (replicate (Suc k) (Latin1 CHR ''b'')), URIRef (lit ''p''), URIRef (lit ''o''))}
         else if t = lit ''<s> <p> <o> .''
         then Inr {(URIRef (lit ''s''), URIRef (lit ''p''), URIRef (lit ''o''))}
         else Inl ParserError)\<rparr>
     0 (lit ''<s> <p> <o> .'') (lit ''[] <p> <o> .'') =
   Inr {(BNode (lit ''b''), URIRef (lit ''p''), URIRef (lit ''o'')),
        (URIRef (lit ''s''), URIRef (lit ''p''), URIRef (lit ''o''))} \<and>
   BNode (lit ''bb'') \<noteq> BNode (lit ''b'') \<and>
   merge
     \<lparr>set_iter = (\<lambda>S. []),
      graph_iter = (\<lambda>g. if g = {(URIRef (lit ''s''), URIRef (lit ''p''), URIRef (lit ''o''))}
                          then [(URIRef (lit ''s''), URIRef (lit ''p''), URIRef (lit ''o''))]
                          else [(BNode (lit ''b''), URIRef (lit ''p''), URIRef (lit ''o''))]),
      serialize_turtle = (\<lambda>g. Inr (lit ''ttl'')),
      parse_turtle = (\<lambda>k t.
         if t = lit ''[] <p> <o> .''
         then Inr {(BNode (replicate (Suc k) (Latin1 CHR ''b'')), URIRef (lit ''p''), URIRef (lit ''o''))}
         else if t = lit ''<s> <p> <o> .''
         then Inr {(URIRef (lit ''s''), URIRef (lit ''p''), URIRef (lit ''o''))}
         else Inl ParserError)\<rparr>
     0 (lit ''[] <p> <o> .'') (lit ''[] <p> <o> .'') =
   Inr {(BNode (lit ''bb''), URIRef (lit ''p''), URIRef (lit ''o'')),
        (BNode (lit ''b''), URIRef (lit ''p''), URIRef (lit ''o''))}"
  by (simp add: merge_def insert_commute)

subsection \<open>C9: a blank question\<close>

lemma is_space_lower: "is_space (lower_char c) = is_space c"
  by (cases c) (auto simp: is_space_def lower_char_def Let_def split: if_splits)

lemma title_char_not_Nil: "title_char c \<noteq> []"
  by (cases c) (simp_all add: title_char_def Let_def)

lemma is_space_title: "d \<in> set (title_char c) \<Longrightarrow> is_space d \<Longrightarrow> is_space c"
  by (cases c) (auto simp: is_space_def title_char_def Let_def split: if_splits)

lemma relation_endpoints:
  assumes "(subj, pred, obj) \<in> set (snd (extraction user_text))"
  shows "\<exists>t u. subj = capitalize t \<and> obj = capitalize u \<and>
           t \<noteq> [] \<and> u \<noteq> [] \<and> \<not> is_space (hd t) \<and> \<not> is_space (hd u)"
proof -
  from assms obtain s where s: "3 \<le> length (py_split s)" and r: "(subj, pred, obj) = relation_of s"
    by (auto simp: extraction_def fold_extract_step)
  let ?parts = "py_split s"
  have "?parts \<noteq> []" using s by auto
  then have "hd ?parts \<in> set ?parts" "last ?parts \<in> set ?parts" by simp_all
  then have "hd ?parts \<noteq> [] \<and> (\<forall>c\<in>set (hd ?parts). \<not> is_space c)"
    "last ?parts \<noteq> [] \<and> (\<forall>c\<in>set (last ?parts). \<not> is_space c)"
    using py_split_token [of "hd ?parts" s] py_split_token [of "last ?parts" s] by blast+
  then have "hd ?parts \<noteq> []" "last ?parts \<noteq> []" "\<not> is_space (hd (hd ?parts))"
    "\<not> is_space (hd (last ?parts))" by simp_all
  moreover have "subj = capitalize (hd ?parts)" "obj = capitalize (last ?parts)"
    using r by (simp_all add: relation_of_def)
  ultimately show ?thesis by blast
qed

lemma lower_capitalize_head:
  assumes "t \<noteq> []" and "\<not> is_space (hd t)"
  shows "py_lower (capitalize t) \<noteq> [] \<and> \<not> is_space (hd (py_lower (capitalize t)))"
proof -
  from assms(1) obtain c cs where t: "t = c # cs" by (cases t) auto
  obtain u us where u: "title_char c = u # us" using title_char_not_Nil by (cases "title_char c") auto
  then have "py_lower (capitalize t) = lower_char u # map lower_char (us @ map lower_char cs)"
    using t by (simp add: capitalize_def py_lower_def)
  moreover have "\<not> is_space u" using is_space_title [of u c] u assms(2) t by auto
  then have "\<not> is_space (lower_char u)" by (simp add: is_space_lower)
  ultimately show ?thesis by simp
qed

lemma blank_no_match:
  assumes "\<forall>c\<in>set query. is_space c" and "x \<noteq> []" and "\<not> is_space (hd x)"
  shows "\<not> py_in x (py_lower query)"
proof
  assume "py_in x (py_lower query)"
  then obtain ps ss where "py_lower query = ps @ x @ ss" unfolding py_in_sublist by blast
  then have "set x \<subseteq> set (py_lower query)" by auto
  then have "hd x \<in> set (py_lower query)" using assms(2) by auto
  then obtain c where "c \<in> set query" "hd x = lower_char c" by (auto simp: py_lower_def)
  then have "is_space (hd x)" using assms(1) by (simp add: is_space_lower)
  then show False using assms(3) by simp
qed

lemma run_query_filter:
  "run_query rels query =
     map (\<lambda>(subj, pred, obj). subj @ (lit '' --['') @ pred @ (lit '']--> '') @ obj)
       (filter (\<lambda>(subj, pred, obj). py_in (py_lower subj) (py_lower query) \<or>
                  py_in (py_lower obj) (py_lower query)) rels)"
  unfolding run_query_def by (rule fold_found [where acc = "[]", unfolded append_Nil])

text \<open>
  C9, as amended. When the question is blank, the query action runs the match like for
  any other question. On a store that a generation has written the match finds nothing,
  since no subject or object is empty or holds white space, and the action renders the
  notice that no relation matches, with no change of state.
\<close>

theorem blank_question_no_match:
  assumes "relations st = Some (snd (extraction user_text))" and "\<forall>c\<in>set query. is_space c"
  shows "semantic_queries True query st =
           (st, [StError (lit ''No matching semantic relations found.'')])"
proof -
  have "\<not> (py_in (py_lower subj) (py_lower query) \<or> py_in (py_lower obj) (py_lower query))"
    if "(subj, pred, obj) \<in> set (snd (extraction user_text))" for subj pred obj
  proof -
    from relation_endpoints [OF that] obtain t u
      where "subj = capitalize t" "obj = capitalize u" "t \<noteq> []" "u \<noteq> []"
        "\<not> is_space (hd t)" "\<not> is_space (hd u)" by blast
    then show ?thesis
      using lower_capitalize_head [of t] lower_capitalize_head [of u] blank_no_match [OF assms(2)]
      by blast
  qed
  then have "filter (\<lambda>(subj, pred, obj). py_in (py_lower subj) (py_lower query) \<or>
                  py_in (py_lower obj) (py_lower query)) (snd (extraction user_text)) = []"
    by (auto simp: filter_empty_conv)
  then have "run_query (snd (extraction user_text)) query = []"
    by (simp only: run_query_filter list.map)
  then show ?thesis using assms(1) by (simp add: semantic_queries_def)
qed

text \<open>The theorem at a question of a space and a tab, on the store of one sentence.\<close>

theorem blank_question_no_match_witness:
  "relations \<lparr>relations = Some [(lit ''Plants'', lit ''absorb'', lit ''Sunlight'')], concepts = None,
              rdf = None, owl = None\<rparr> = Some (snd (extraction (lit ''Plants absorb sunlight''))) \<and>
   is_space (Latin1 CHR '' '') \<and> is_space ((Latin1 (CHR 0x09))) \<and>
   semantic_queries True [(Latin1 CHR '' ''), (Latin1 (CHR 0x09))]
     \<lparr>relations = Some [(lit ''Plants'', lit ''absorb'', lit ''Sunlight'')], concepts = None,
      rdf = None, owl = None\<rparr> =
   (\<lparr>relations = Some [(lit ''Plants'', lit ''absorb'', lit ''Sunlight'')], concepts = None,
     rdf = None, owl = None\<rparr>,
    [StError (lit ''No matching semantic relations found.'')])"
proof -
  have e: "snd (extraction (lit ''Plants absorb sunlight'')) = [(lit ''Plants'', lit ''absorb'', lit ''Sunlight'')]"
    by code_simp
  have r: "relations \<lparr>relations = Some [(lit ''Plants'', lit ''absorb'', lit ''Sunlight'')], concepts = None,
              rdf = None, owl = None\<rparr> = Some (snd (extraction (lit ''Plants absorb sunlight'')))"
    unfolding e by simp
  have s: "is_space (Latin1 CHR '' '')" "is_space ((Latin1 (CHR 0x09)))" by (simp_all add: is_space_def)
  then have b: "\<forall>c\<in>set [(Latin1 CHR '' ''), (Latin1 (CHR 0x09))]. is_space c" by simp
  from r s blank_question_no_match [OF r b] show ?thesis by blast
qed

text \<open>
  C9 as stated has the action render a warning about the empty input instead of the
  no-match result. On the empty question the action renders the no-match notice and
  nothing else.
\<close>

theorem blank_question_counterexample:
  "semantic_queries True []
     \<lparr>relations = Some [(lit ''Plants'', lit ''absorb'', lit ''Sunlight'')], concepts = Some {lit ''plants''},
      rdf = Some (lit ''ttl''), owl = Some (lit ''Class: Plants'')\<rparr> =
   (\<lparr>relations = Some [(lit ''Plants'', lit ''absorb'', lit ''Sunlight'')], concepts = Some {lit ''plants''},
     rdf = Some (lit ''ttl''), owl = Some (lit ''Class: Plants'')\<rparr>,
    [StError (lit ''No matching semantic relations found.'')])"
  by (simp add: semantic_queries_def run_query_def py_lower_def)

subsection \<open>C10: the merge does not write to the session state\<close>

text \<open>
  C10. Whatever the upload, the tab leaves the session state as it was. When the merge
  succeeds, the stored relations, concepts, RDF text and OWL text are those from before
  it, and the merged graph is only written out in the code block that is rendered.
\<close>

theorem merge_keeps_session:
  "fst (export_merge rt n uploaded st) = st \<and>
   (rdf st = Some rdf_text \<and> owl st = Some owl_text \<and> merge rt n rdf_text up = Inr merged \<and>
    serialize_turtle rt merged = Inr text \<longrightarrow>
      export_merge rt n (Some up) st =
        (st, Inr [StDownload (lit ''ontology.ttl'') (lit ''text/turtle'') rdf_text,
                  StDownload (lit ''ontology.owl'') (lit ''application/rdf+xml'') owl_text,
                  StSubheader (lit ''Ontology Merge''),
                  StSuccess (lit ''Ontologies merged successfully!''), StCode text]))"
proof (intro conjI impI)
  show "fst (export_merge rt n uploaded st) = st"
    by (simp add: export_merge_def Let_def split: option.splits sum.splits)
next
  assume "rdf st = Some rdf_text \<and> owl st = Some owl_text \<and> merge rt n rdf_text up = Inr merged \<and>
    serialize_turtle rt merged = Inr text"
  then show "export_merge rt n (Some up) st =
        (st, Inr [StDownload (lit ''ontology.ttl'') (lit ''text/turtle'') rdf_text,
                  StDownload (lit ''ontology.owl'') (lit ''application/rdf+xml'') owl_text,
                  StSubheader (lit ''Ontology Merge''),
                  StSuccess (lit ''Ontologies merged successfully!''), StCode text])"
    by (simp add: export_merge_def Let_def)
qed

text \<open>The theorem at a store and an upload that both parse.\<close>

theorem merge_keeps_session_witness:
  "export_merge
     \<lparr>set_iter = (\<lambda>S. []),
      graph_iter = (\<lambda>g. [(ex (lit ''Life''), RDF_type, RDFS_Class)]),
      serialize_turtle = (\<lambda>g. Inr (lit ''merged ttl'')),
      parse_turtle = (\<lambda>k t. if t = lit ''base'' then Inr {(ex (lit ''Plants''), RDF_type, RDFS_Class)}
                          else if t = lit ''upload'' then Inr {(ex (lit ''Life''), RDF_type, RDFS_Class)}
                          else Inl ParserError)\<rparr>
     3 (Some (lit ''upload''))
     \<lparr>relations = Some [], concepts = Some {lit ''plants''}, rdf = Some (lit ''base''),
      owl = Some (lit ''Class: Plants'')\<rparr> =
   (\<lparr>relations = Some [], concepts = Some {lit ''plants''}, rdf = Some (lit ''base''),
     owl = Some (lit ''Class: Plants'')\<rparr>,
    Inr [StDownload (lit ''ontology.ttl'') (lit ''text/turtle'') (lit ''base''),
         StDownload (lit ''ontology.owl'') (lit ''application/rdf+xml'') (lit ''Class: Plants''),
         StSubheader (lit ''Ontology Merge''),
         StSuccess (lit ''Ontologies merged successfully!''), StCode (lit ''merged ttl'')])"
proof -
  let ?rt = "\<lparr>set_iter = (\<lambda>S. []),
      graph_iter = (\<lambda>g. [(ex (lit ''Life''), RDF_type, RDFS_Class)]),
      serialize_turtle = (\<lambda>g. Inr (lit ''merged ttl'')),
      parse_turtle = (\<lambda>k t. if t = lit ''base'' then Inr {(ex (lit ''Plants''), RDF_type, RDFS_Class)}
                          else if t = lit ''upload'' then Inr {(ex (lit ''Life''), RDF_type, RDFS_Class)}
                          else Inl ParserError)\<rparr>"
  let ?st = "\<lparr>relations = Some [], concepts = Some {lit ''plants''}, rdf = Some (lit ''base''),
      owl = Some (lit ''Class: Plants'')\<rparr>"
  let ?m = "{(ex (lit ''Life''), RDF_type, RDFS_Class), (ex (lit ''Plants''), RDF_type, RDFS_Class)}"
  have h: "rdf ?st = Some (lit ''base'') \<and> owl ?st = Some (lit ''Class: Plants'') \<and>
      merge ?rt 3 (lit ''base'') (lit ''upload'') = Inr ?m \<and> serialize_turtle ?rt ?m = Inr (lit ''merged ttl'')"
    by (simp add: merge_def)
  from merge_keeps_session [of ?rt 3 "Some (lit ''upload'')" ?st "(lit ''base'')" "(lit ''Class: Plants'')" "(lit ''upload'')" ?m "(lit ''merged ttl'')"] h
  show ?thesis by blast
qed

end
